theory Spec2Isabelle
  imports Complex_Main "HOL-Library.Sublist"
begin

section \<open>Password strength assessor: the scoring engine of password\_strength.py\<close>

text \<open>
  The engine is a pure function of one Python \<open>str\<close>. A password is modelled as a
  \<open>string\<close>: a list of characters, each character standing for the Unicode code point
  of the same number (0 to 255, the Latin-1 range), so that \<open>length\<close> is Python's
  \<open>len\<close>. The character predicates of the Python runtime (\<open>str.islower\<close>,
  \<open>str.isupper\<close>, \<open>str.isdigit\<close>, \<open>str.isalnum\<close>, \<open>str.lower\<close>) are written out
  as their tables on that range.

  The entropy estimate is modelled as the real number \<open>len(p) * log2(pool)\<close>. In the
  crack-time projector the floats are doubles: a float is the real number it stands for,
  every division rounds its exact quotient to the nearest double (\<open>fl\<close>), as IEEE 754
  division does, and \<open>2 ** x\<close> is the nearest double to the power and raises
  \<open>OverflowError\<close> where the power is beyond the double range.
\<close>

subsection \<open>Characters\<close>

definition ord :: "char \<Rightarrow> nat" where
  "ord c = of_char c"

definition islower :: "char \<Rightarrow> bool" where
  "islower c = (let n = ord c in
     (97 \<le> n \<and> n \<le> 122) \<or> n = 170 \<or> n = 181 \<or> n = 186 \<or>
     (223 \<le> n \<and> n \<le> 246) \<or> (248 \<le> n \<and> n \<le> 255))"

definition isupper :: "char \<Rightarrow> bool" where
  "isupper c = (let n = ord c in
     (65 \<le> n \<and> n \<le> 90) \<or> (192 \<le> n \<and> n \<le> 214) \<or> (216 \<le> n \<and> n \<le> 222))"

definition isdigit :: "char \<Rightarrow> bool" where
  "isdigit c = (let n = ord c in
     (48 \<le> n \<and> n \<le> 57) \<or> n = 178 \<or> n = 179 \<or> n = 185)"

definition isalnum :: "char \<Rightarrow> bool" where
  "isalnum c = (let n = ord c in
     (48 \<le> n \<and> n \<le> 57) \<or> (65 \<le> n \<and> n \<le> 90) \<or> (97 \<le> n \<and> n \<le> 122) \<or>
     n = 170 \<or> n = 178 \<or> n = 179 \<or> n = 181 \<or> n = 185 \<or> n = 186 \<or>
     (188 \<le> n \<and> n \<le> 190) \<or> (192 \<le> n \<and> n \<le> 214) \<or>
     (216 \<le> n \<and> n \<le> 246) \<or> (248 \<le> n \<and> n \<le> 255))"

text \<open>\<open>str.lower\<close> on one character: the upper-case letters move up by 32.\<close>

definition lower_char :: "char \<Rightarrow> char" where
  "lower_char c = (if isupper c then char_of (ord c + 32) else c)"

definition lower :: "string \<Rightarrow> string" where
  "lower p = map lower_char p"

subsection \<open>Constants\<close>

text \<open>\<open>COMMON_WORDS\<close> is a Python set; only the number of its matching members is used,
  so the order of this list is immaterial.\<close>

definition COMMON_WORDS :: "string list" where
  "COMMON_WORDS = [''password'', ''admin'', ''welcome'', ''qwerty'', ''iloveyou'', ''letmein'',
     ''login'', ''user'', ''test'', ''secret'', ''dragon'', ''football'', ''monkey'']"

definition LEET_MAP :: "(char \<times> char) list" where
  "LEET_MAP = [(CHR ''@'', CHR ''a''), (CHR ''$'', CHR ''s''), (CHR ''!'', CHR ''i''),
     (CHR ''1'', CHR ''l''), (CHR ''0'', CHR ''o''), (CHR ''3'', CHR ''e''),
     (CHR ''5'', CHR ''s''), (CHR ''7'', CHR ''t'')]"

definition translate :: "(char \<times> char) list \<Rightarrow> string \<Rightarrow> string" where
  "translate tab s = map (\<lambda>c. case map_of tab c of None \<Rightarrow> c | Some d \<Rightarrow> d) s"

definition SEQUENCES :: "string list" where
  "SEQUENCES = [''abcdefghijklmnopqrstuvwxyz'', ''ABCDEFGHIJKLMNOPQRSTUVWXYZ'',
     ''0123456789'', ''qwertyuiopasdfghjklzxcvbnm'']"

subsection \<open>Character classifier\<close>

definition has_lower :: "string \<Rightarrow> bool" where
  "has_lower p = list_ex islower p"

definition has_upper :: "string \<Rightarrow> bool" where
  "has_upper p = list_ex isupper p"

definition has_digit :: "string \<Rightarrow> bool" where
  "has_digit p = list_ex isdigit p"

definition has_symbol :: "string \<Rightarrow> bool" where
  "has_symbol p = list_ex (\<lambda>c. \<not> isalnum c) p"

definition char_pool_size :: "string \<Rightarrow> nat" where
  "char_pool_size p =
     (let pool = 0;
          pool = (if has_lower p then pool + 26 else pool);
          pool = (if has_upper p then pool + 26 else pool);
          pool = (if has_digit p then pool + 10 else pool);
          pool = (if has_symbol p then pool + 33 else pool)
      in max pool 1)"

subsection \<open>Entropy estimator\<close>

definition estimate_entropy_bits :: "string \<Rightarrow> real" where
  "estimate_entropy_bits p = (let pool = char_pool_size p in real (length p) * log 2 (real pool))"

subsection \<open>Pattern detectors\<close>

text \<open>Python's \<open>needle in hay\<close> on strings: \<open>needle\<close> occurs as a contiguous run.\<close>

fun py_in :: "string \<Rightarrow> string \<Rightarrow> bool" where
  "py_in needle [] = (needle = [])"
| "py_in needle (h # hay) = (take (length needle) (h # hay) = needle \<or> py_in needle hay)"

text \<open>The body of the inner loop of \<open>_find_sequences\<close>, for the window of \<open>seq\<close>
  that starts at index \<open>i\<close>: two separate \<open>if\<close> statements on the running count.\<close>

definition scan_window :: "string \<Rightarrow> string \<Rightarrow> nat \<Rightarrow> int \<Rightarrow> int" where
  "scan_window lower_p seq i count =
     (let chunk = take 3 (drop i seq);
          count = (if py_in chunk lower_p then count + 1 else count);
          count = (if py_in (rev chunk) lower_p then count + 1 else count)
      in count)"

definition find_sequences :: "string \<Rightarrow> int" where
  "find_sequences p =
     (let count = 0;
          lower_p = lower p
      in fold (\<lambda>seq count. fold (scan_window lower_p seq) [0 ..< length seq - 2] count)
           SEQUENCES count)"

text \<open>
  The three regular expressions of \<open>_repetition_penalty\<close> have the shape
  \<open>(.{n})\1{k,}\<close>: a group of \<open>n\<close> characters, none a newline (the dot of \<open>re\<close> does
  not match \<open>\n\<close> without \<open>DOTALL\<close>), followed by at least \<open>k\<close> further copies of the
  group. \<open>re.search\<close> tries every start position.
\<close>

definition dot :: "char \<Rightarrow> bool" where
  "dot c = (c \<noteq> CHR 0x0A)"

definition group_repeat_here :: "nat \<Rightarrow> nat \<Rightarrow> string \<Rightarrow> bool" where
  "group_repeat_here n k s =
     (let g = take n s
      in length g = n \<and> list_all dot g \<and> take (n * k) (drop n s) = concat (replicate k g))"

fun re_search :: "(string \<Rightarrow> bool) \<Rightarrow> string \<Rightarrow> bool" where
  "re_search m [] = m []"
| "re_search m (c # cs) = (m (c # cs) \<or> re_search m cs)"

definition repetition_penalty :: "string \<Rightarrow> int" where
  "repetition_penalty p =
     (let penalties = 0;
          penalties = (if re_search (group_repeat_here 1 2) p then penalties + 1 else penalties);
          penalties = (if re_search (group_repeat_here 2 1) p then penalties + 1 else penalties);
          penalties = (if re_search (group_repeat_here 3 1) p then penalties + 1 else penalties)
      in penalties)"

definition dictionary_hits :: "string \<Rightarrow> int" where
  "dictionary_hits p =
     (let hits = 0;
          plain = lower p;
          norm = translate LEET_MAP plain
      in fold (\<lambda>w hits. if py_in w plain \<or> py_in w norm then hits + 1 else hits)
           COMMON_WORDS hits)"

subsection \<open>Crack-time projector\<close>

datatype py_error = OverflowError | ZeroDivisionError

text \<open>
  The format \<open>:.2f\<close>: the value rounded to hundredths (ties to even), printed as sign,
  integer digits, a point and two digits. \<open>digit_char\<close> is only applied to numbers
  below 10.
\<close>

definition round_half_even :: "real \<Rightarrow> int" where
  "round_half_even x =
     (let f = \<lfloor>x\<rfloor>; d = x - real_of_int f
      in if d < 1 / 2 then f else if 1 / 2 < d then f + 1 else if even f then f else f + 1)"

definition digit_char :: "nat \<Rightarrow> char" where
  "digit_char d = ''0123456789'' ! d"

fun str_nat :: "nat \<Rightarrow> string" where
  "str_nat n = (if n < 10 then [digit_char n] else str_nat (n div 10) @ [digit_char (n mod 10)])"

declare str_nat.simps [simp del]

definition format_2f :: "real \<Rightarrow> string" where
  "format_2f x =
     (let n = nat (round_half_even (\<bar>x\<bar> * 100))
      in (if x < 0 then ''-'' else []) @ str_nat (n div 100) @ ''.'' @
         [digit_char (n mod 100 div 10), digit_char (n mod 10)])"

text \<open>
  Rounding to double precision: the nearest multiple of the unit in the last place of a
  53-bit significand (of \<open>2 ^ -1074\<close> in the subnormal range), ties to the even multiple.
  Every quotient and power of the projector is below \<open>2 ^ 1024\<close>, so no rounding
  overflows.
\<close>

definition fl :: "real \<Rightarrow> real" where
  "fl x =
     (if x = 0 then 0
      else (let e = max \<lfloor>log 2 \<bar>x\<bar>\<rfloor> (- 1022);
                ulp = 2 powr (real_of_int e - 52)
            in real_of_int (round_half_even (x / ulp)) * ulp))"

definition units :: "(string \<times> int) list" where
  "units = [(''sec'', 1), (''min'', 60), (''hr'', 3600), (''day'', 86400),
            (''yr'', 31557600), (''century'', 3155760000)]"

text \<open>The \<open>for\<close> loop of \<open>humanize\<close> over the units still to be tried, and the
  \<open>return\<close> after it. The quotient \<open>s / span\<close> is a float division; no span is zero.\<close>

fun humanize_loop :: "(string \<times> int) list \<Rightarrow> real \<Rightarrow> string" where
  "humanize_loop [] s = format_2f s @ '' sec''"
| "humanize_loop ((name, spn) # us) s =
     (if s < real_of_int (spn * 60) \<or> name = ''century''
      then format_2f (fl (s / real_of_int spn)) @ '' '' @ name
      else humanize_loop us s)"

definition humanize :: "real \<Rightarrow> string" where
  "humanize s = humanize_loop units s"

record crack_estimates =
  offline_fast :: string
  online_slow :: string

text \<open>\<open>2 ** x\<close> on a float exponent raises \<open>OverflowError\<close> when the power is beyond
  the double range, that is from \<open>x = 1024\<close> on; otherwise it is the power as a double
  (the C library's \<open>pow\<close>, taken as the nearest double; it is exact at \<open>x = 0\<close>).\<close>

definition pow2 :: "real \<Rightarrow> py_error + real" where
  "pow2 x = (if 1024 \<le> x then Inl OverflowError else Inr (fl (2 powr x)))"

text \<open>The float division \<open>a / b\<close>.\<close>

definition float_div :: "real \<Rightarrow> real \<Rightarrow> py_error + real" where
  "float_div a b = (if b = 0 then Inl ZeroDivisionError else Inr (fl (a / b)))"

text \<open>The first statement of \<open>crack_time_estimates\<close>: the local \<open>expected_guesses\<close>.\<close>

definition expected_guesses :: "real \<Rightarrow> py_error + real" where
  "expected_guesses bits = pow2 (max (bits - 1) 0)"

definition crack_time_estimates :: "real \<Rightarrow> real \<Rightarrow> py_error + crack_estimates" where
  "crack_time_estimates bits guesses_per_sec =
     (case expected_guesses bits of
        Inl e \<Rightarrow> Inl e
      | Inr guesses \<Rightarrow>
          (case float_div guesses guesses_per_sec of
             Inl e \<Rightarrow> Inl e
           | Inr seconds \<Rightarrow>
               Inr \<lparr>offline_fast = humanize seconds,
                    online_slow = humanize (fl (guesses / 100))\<rparr>))"

text \<open>The default of the parameter \<open>guesses_per_sec\<close>, \<open>1e10\<close>; every call in the
  repository uses it.\<close>

definition guesses_per_sec_default :: real where
  "guesses_per_sec_default = 10 ^ 10"

text \<open>
  The humanizer as the specification words it: the largest unit of the ordered list for
  which the duration is below 60 times the unit's span, and \<open>century\<close> when there is
  none. It is compared with \<open>humanize\<close> below.
\<close>

definition qualifies :: "real \<Rightarrow> string \<times> int \<Rightarrow> bool" where
  "qualifies s u = (s < real_of_int (snd u * 60))"

definition humanize_largest_spec :: "real \<Rightarrow> string" where
  "humanize_largest_spec s =
     (let u = (case filter (qualifies s) (rev units) of
                 [] \<Rightarrow> (''century'', 3155760000)
               | v # _ \<Rightarrow> v)
      in format_2f (fl (s / real_of_int (snd u))) @ '' '' @ fst u)"

subsection \<open>Score aggregator\<close>

text \<open>The feedback strings, in the order in which they appear in \<open>score_password\<close>:
  "Password is empty.", "Use at least 8-12 characters." (written with an en dash),
  "Avoid sequential patterns (e.g., abc, 123, qwerty).",
  "Avoid repeated patterns like aaa or abcabc.",
  "Avoid common or leetspeak words (e.g., 'p@ssw0rd').", "Add uppercase letters.",
  "Add lowercase letters.", "Add digits.", "Add symbols (e.g., !@#$).".\<close>

datatype feedback_msg =
    Password_is_empty
  | Use_at_least_8_12_characters
  | Avoid_sequential_patterns
  | Avoid_repeated_patterns
  | Avoid_common_words
  | Add_uppercase_letters
  | Add_lowercase_letters
  | Add_digits
  | Add_symbols

text \<open>\<open>int(x)\<close> on a float truncates towards zero.\<close>

definition py_int :: "real \<Rightarrow> int" where
  "py_int x = (if 0 \<le> x then \<lfloor>x\<rfloor> else \<lceil>x\<rceil>)"

text \<open>\<open>round(x, 2)\<close>.\<close>

definition round2 :: "real \<Rightarrow> real" where
  "round2 x = real_of_int (round_half_even (x * 100)) / 100"

definition varieties :: "string \<Rightarrow> nat" where
  "varieties p = sum_list (map of_bool [has_lower p, has_upper p, has_digit p, has_symbol p])"

text \<open>The statement \<open>if c: feedback.append(msg)\<close>.\<close>

definition append_if :: "bool \<Rightarrow> feedback_msg \<Rightarrow> feedback_msg list \<Rightarrow> feedback_msg list" where
  "append_if c msg fb = (if c then fb @ [msg] else fb)"

text \<open>The \<open>if\<close>/\<open>elif\<close> chain on the length \<open>L\<close>, which updates \<open>score\<close> and, in its
  first branch only, \<open>feedback\<close>.\<close>

definition length_stage :: "nat \<Rightarrow> int \<Rightarrow> feedback_msg list \<Rightarrow> int \<times> feedback_msg list" where
  "length_stage L sc fb =
     (if L < 6 then (sc + 0, fb @ [Use_at_least_8_12_characters])
      else if L < 8 then (sc + 10, fb)
      else if L < 12 then (sc + 20, fb)
      else if L < 16 then (sc + 30, fb)
      else (sc + 40, fb))"

text \<open>
  The local variables of \<open>score_password\<close> on the non-empty path when control reaches the
  \<open>return\<close> statement; \<open>l_raw\<close> is the value of \<open>score\<close> after the entropy bonus has
  been added and before the penalties are subtracted.
\<close>

record locals =
  l_bits :: real
  l_raw :: int
  l_seqs :: int
  l_reps :: int
  l_dicts :: int
  l_penalty :: int
  l_score :: int
  l_feedback :: "feedback_msg list"
  l_label :: string

definition score_body :: "string \<Rightarrow> locals" where
  "score_body p =
     (let bits = estimate_entropy_bits p;
          sc = 0;
          fb = [];
          L = length p;
          (sc, fb) = length_stage L sc fb;
          sc = sc + [0, 10, 20, 30, 35] ! varieties p;
          sc = sc + min (py_int (bits / 4)) 25;
          raw = sc;
          seqs = find_sequences p;
          reps = repetition_penalty p;
          dicts = dictionary_hits p;
          penalty = seqs * 8 + reps * 8 + dicts * 12;
          sc = max 0 (min 100 (sc - penalty));
          fb = append_if (seqs \<noteq> 0) Avoid_sequential_patterns fb;
          fb = append_if (reps \<noteq> 0) Avoid_repeated_patterns fb;
          fb = append_if (dicts \<noteq> 0) Avoid_common_words fb;
          fb = append_if (\<not> has_upper p) Add_uppercase_letters fb;
          fb = append_if (\<not> has_lower p) Add_lowercase_letters fb;
          fb = append_if (\<not> has_digit p) Add_digits fb;
          fb = append_if (\<not> has_symbol p) Add_symbols fb;
          lab = (if sc < 20 then ''Very Weak''
                 else if sc < 40 then ''Weak''
                 else if sc < 60 then ''Moderate''
                 else if sc < 80 then ''Strong''
                 else ''Excellent'')
      in \<lparr>l_bits = bits, l_raw = raw, l_seqs = seqs, l_reps = reps, l_dicts = dicts,
          l_penalty = penalty, l_score = sc, l_feedback = fb, l_label = lab\<rparr>)"

text \<open>The returned dictionary. The key \<open>penalty_detail\<close> is present in the dictionary of
  the non-empty path only, hence the option.\<close>

record penalty_counts =
  sequences :: int
  repeats :: int
  dictionary_hits_count :: int

record analysis_result =
  score :: int
  label :: string
  bits :: real
  penalty_detail :: "penalty_counts option"
  feedback :: "feedback_msg list"
  estimates :: crack_estimates

definition score_password :: "string \<Rightarrow> py_error + analysis_result" where
  "score_password p =
     (if p = [] then
        (case crack_time_estimates 0 guesses_per_sec_default of
           Inl e \<Rightarrow> Inl e
         | Inr est \<Rightarrow>
             Inr \<lparr>score = 0, label = ''Very Weak'', bits = 0, penalty_detail = None,
                  feedback = [Password_is_empty], estimates = est\<rparr>)
      else
        (let b = score_body p
         in case crack_time_estimates (l_bits b) guesses_per_sec_default of
              Inl e \<Rightarrow> Inl e
            | Inr est \<Rightarrow>
                Inr \<lparr>score = l_score b, label = l_label b, bits = round2 (l_bits b),
                     penalty_detail =
                       Some \<lparr>sequences = l_seqs b, repeats = l_reps b,
                             dictionary_hits_count = l_dicts b\<rparr>,
                     feedback = l_feedback b, estimates = est\<rparr>))"

section \<open>Properties\<close>

subsection \<open>Character classifier and entropy estimator\<close>

lemma char_pool_size_classes:
  "char_pool_size p =
     max (of_bool (has_lower p) * 26 + of_bool (has_upper p) * 26 +
          of_bool (has_digit p) * 10 + of_bool (has_symbol p) * 33) 1"
  by (simp add: char_pool_size_def)

lemma char_pool_size_pos: "1 \<le> char_pool_size p"
  by (simp add: char_pool_size_def)

lemma estimate_entropy_bits_nonneg: "0 \<le> estimate_entropy_bits p"
proof -
  have "1 \<le> real (char_pool_size p)"
    using char_pool_size_pos [of p] by simp
  then have "0 \<le> log 2 (real (char_pool_size p))"
    by simp
  then show ?thesis
    by (simp add: estimate_entropy_bits_def)
qed

lemma entropy_mono:
  assumes "char_pool_size p = char_pool_size q" and "length p \<le> length q"
  shows "estimate_entropy_bits p \<le> estimate_entropy_bits q"
proof -
  have "1 \<le> real (char_pool_size q)"
    using char_pool_size_pos [of q] by simp
  then have "0 \<le> log 2 (real (char_pool_size q))"
    by simp
  moreover have "real (length p) \<le> real (length q)"
    using assms(2) by simp
  ultimately have "real (length p) * log 2 (real (char_pool_size q))
      \<le> real (length q) * log 2 (real (char_pool_size q))"
    by (rule mult_right_mono [rotated])
  then show ?thesis
    by (simp add: estimate_entropy_bits_def assms(1))
qed

text \<open>The integer part of \<open>bits / 4\<close> from two integer comparisons, for evaluating the
  entropy bonus at a concrete password.\<close>

lemma floor_bits:
  assumes "1 \<le> a" and "2 ^ (4 * k) \<le> a ^ L" and "a ^ L < 2 ^ (4 * (k + 1))"
  shows "\<lfloor>real L * log 2 (real a) / 4\<rfloor> = int k"
proof -
  have eq: "real L * log 2 (real a) = log 2 (real (a ^ L))"
    using assms(1) by (simp add: log_nat_power)
  have pos: "0 < a ^ L"
    using assms(1) by simp
  have lo: "real (4 * k) \<le> log 2 (real (a ^ L))"
    using assms(2) by (rule le_log2_of_power)
  have "real (a ^ L) < real (2 ^ (4 * (k + 1)))"
    using assms(3) by (simp only: of_nat_less_iff)
  then have "real (a ^ L) < 2 ^ (4 * (k + 1))"
    by simp
  then have hi: "log 2 (real (a ^ L)) < real (4 * (k + 1))"
    using pos by (intro log_of_power_less) simp_all
  have "real_of_int (int k) \<le> real L * log 2 (real a) / 4"
    using lo eq by simp
  moreover have "real L * log 2 (real a) / 4 < real_of_int (int k) + 1"
    using hi eq by simp
  ultimately show ?thesis
    by (simp add: floor_eq_iff)
qed

lemma classes_ab:
  "has_lower ''ab'' \<and> \<not> has_upper ''ab'' \<and> \<not> has_digit ''ab'' \<and> \<not> has_symbol ''ab''"
  by code_simp

lemma classes_abc:
  "has_lower ''abc'' \<and> \<not> has_upper ''abc'' \<and> \<not> has_digit ''abc'' \<and> \<not> has_symbol ''abc''"
  by code_simp

text \<open>
  C9: \<open>estimate_entropy_bits\<close> is the length times the base-2 logarithm of the pool, the
  pool being 26 for lower case, 26 for upper case, 10 for digits and 33 for symbols, summed
  over the classes present and at least 1; hence, of two passwords with the same classes
  present, the one that is at least as long has at least as many bits.
\<close>

theorem estimate_entropy_bits_monotone:
  "estimate_entropy_bits p =
     real (length p) *
       log 2 (real (max (of_bool (has_lower p) * 26 + of_bool (has_upper p) * 26 +
                         of_bool (has_digit p) * 10 + of_bool (has_symbol p) * 33) 1)) \<and>
   (\<forall>q. has_lower q = has_lower p \<and> has_upper q = has_upper p \<and>
        has_digit q = has_digit p \<and> has_symbol q = has_symbol p \<and>
        length p \<le> length q \<longrightarrow>
        estimate_entropy_bits p \<le> estimate_entropy_bits q)"
proof (intro conjI allI impI)
  show "estimate_entropy_bits p =
     real (length p) *
       log 2 (real (max (of_bool (has_lower p) * 26 + of_bool (has_upper p) * 26 +
                         of_bool (has_digit p) * 10 + of_bool (has_symbol p) * 33) 1))"
    by (simp only: estimate_entropy_bits_def Let_def char_pool_size_classes)
next
  fix q
  assume same: "has_lower q = has_lower p \<and> has_upper q = has_upper p \<and>
        has_digit q = has_digit p \<and> has_symbol q = has_symbol p \<and> length p \<le> length q"
  then have "char_pool_size p = char_pool_size q"
    by (simp add: char_pool_size_classes)
  with same show "estimate_entropy_bits p \<le> estimate_entropy_bits q"
    by (intro entropy_mono) simp_all
qed

theorem estimate_entropy_bits_monotone_witness:
  "estimate_entropy_bits ''ab'' = 2 * log 2 26 \<and>
   estimate_entropy_bits ''ab'' \<le> estimate_entropy_bits ''abc''"
proof -
  note inst = estimate_entropy_bits_monotone [of "''ab''"]
  have "estimate_entropy_bits ''ab'' = 2 * log 2 26"
    using inst classes_ab by simp
  moreover have "has_lower ''abc'' = has_lower ''ab'' \<and> has_upper ''abc'' = has_upper ''ab'' \<and>
      has_digit ''abc'' = has_digit ''ab'' \<and> has_symbol ''abc'' = has_symbol ''ab'' \<and>
      length ''ab'' \<le> length ''abc'' \<longrightarrow>
      estimate_entropy_bits ''ab'' \<le> estimate_entropy_bits ''abc''"
    using inst by blast
  then have "estimate_entropy_bits ''ab'' \<le> estimate_entropy_bits ''abc''"
    using classes_ab classes_abc by simp
  ultimately show ?thesis ..
qed

subsection \<open>Crack-time projector\<close>

lemmas fmt_simps = format_2f_def round_half_even_def str_nat.simps digit_char_def

text \<open>The double nearest to a number whose binary exponent is known.\<close>

lemma fl_eval:
  assumes "2 powr real_of_int e \<le> \<bar>x\<bar>" and "\<bar>x\<bar> < 2 powr (real_of_int e + 1)"
    and "- 1022 \<le> e"
  shows "fl x =
    real_of_int (round_half_even (x / 2 powr (real_of_int e - 52))) *
      2 powr (real_of_int e - 52)"
proof -
  have "(0::real) < 2 powr real_of_int e"
    by simp
  then have pos: "0 < \<bar>x\<bar>"
    using assms(1) by (rule less_le_trans)
  then have "\<lfloor>log 2 \<bar>x\<bar>\<rfloor> = e"
    using assms(1,2) by (simp add: floor_log_eq_powr_iff)
  with pos assms(3) show ?thesis
    by (simp add: fl_def Let_def max_def)
qed

lemma fl_eval_small:
  assumes "1 \<le> \<bar>x\<bar> * 2 ^ n" and "\<bar>x\<bar> * 2 ^ n < 2" and "n \<le> 1022"
  shows "fl x = real_of_int (round_half_even (x * 2 ^ (n + 52))) / 2 ^ (n + 52)"
proof -
  have p: "2 powr real_of_int (- int n) = 1 / 2 ^ n"
    by (simp add: powr_minus powr_realpow divide_inverse)
  have q: "2 powr (real_of_int (- int n) + 1) = 2 / 2 ^ n"
  proof -
    have "(2::real) powr (real_of_int (- int n) + 1) = 2 powr real_of_int (- int n) * 2 powr 1"
      by (rule powr_add)
    then show ?thesis
      unfolding p by simp
  qed
  have u: "2 powr (real_of_int (- int n) - 52) = 1 / 2 ^ (n + 52)"
  proof -
    have "real_of_int (- int n) - 52 = - real (n + 52)"
      by simp
    then show ?thesis
      by (simp only: powr_minus powr_realpow [OF zero_less_numeral] divide_inverse mult_1)
  qed
  have "2 powr real_of_int (- int n) \<le> \<bar>x\<bar>"
    unfolding p using assms(1) by (simp add: field_simps)
  moreover have "\<bar>x\<bar> < 2 powr (real_of_int (- int n) + 1)"
    unfolding q using assms(2) by (simp add: field_simps)
  moreover have "- 1022 \<le> - int n"
    using assms(3) by simp
  ultimately have "fl x =
    real_of_int (round_half_even (x / 2 powr (real_of_int (- int n) - 52))) *
      2 powr (real_of_int (- int n) - 52)"
    by (rule fl_eval)
  then show ?thesis
    unfolding u by simp
qed

lemma fl_eval_large:
  assumes "2 ^ n \<le> \<bar>x\<bar>" and "\<bar>x\<bar> < 2 ^ (n + 1)" and "n \<le> 52"
  shows "fl x = real_of_int (round_half_even (x * 2 ^ (52 - n))) / 2 ^ (52 - n)"
proof -
  have p: "2 powr real_of_int (int n) = 2 ^ n"
    by (simp add: powr_realpow)
  have q: "2 powr (real_of_int (int n) + 1) = 2 ^ (n + 1)"
    by (simp add: powr_add powr_realpow)
  have u: "2 powr (real_of_int (int n) - 52) = 1 / 2 ^ (52 - n)"
  proof -
    have "real_of_int (int n) - 52 = - real (52 - n)"
      using assms(3) by simp
    then show ?thesis
      by (simp only: powr_minus powr_realpow [OF zero_less_numeral] divide_inverse mult_1)
  qed
  have "2 powr real_of_int (int n) \<le> \<bar>x\<bar>"
    unfolding p using assms(1) .
  moreover have "\<bar>x\<bar> < 2 powr (real_of_int (int n) + 1)"
    unfolding q using assms(2) .
  moreover have "- 1022 \<le> int n"
    by simp
  ultimately have "fl x =
    real_of_int (round_half_even (x / 2 powr (real_of_int (int n) - 52))) *
      2 powr (real_of_int (int n) - 52)"
    by (rule fl_eval)
  then show ?thesis
    unfolding u by simp
qed

lemma fl_one: "fl 1 = 1"
  using fl_eval_large [of 0 1] by (simp add: round_half_even_def)

text \<open>The doubles for \<open>1e-10\<close>, \<open>0.01\<close>, \<open>1 / 3155760000\<close> and \<open>3.755\<close>, with the
  powers of two written out.\<close>

lemma fl_tiny:
  "fl (1 / 10000000000) = 7737125245533627 / 77371252455336267181195264"
  using fl_eval_small [of "1 / 10000000000" 34] by (simp add: round_half_even_def)

lemma fl_fl_tiny:
  "fl (7737125245533627 / 77371252455336267181195264) =
     7737125245533627 / 77371252455336267181195264"
  using fl_eval_small [of "7737125245533627 / 77371252455336267181195264" 34]
  by (simp add: round_half_even_def)

lemma fl_hundredth: "fl (1 / 100) = 5764607523034235 / 576460752303423488"
  using fl_eval_small [of "1 / 100" 7] by (simp add: round_half_even_def)

lemma fl_fl_hundredth:
  "fl (5764607523034235 / 576460752303423488) = 5764607523034235 / 576460752303423488"
  using fl_eval_small [of "5764607523034235 / 576460752303423488" 7]
  by (simp add: round_half_even_def)

lemma fl_century_of_one:
  "fl (1 / 3155760000) = 6129367605215247 / 19342813113834066795298816"
  using fl_eval_small [of "1 / 3155760000" 32] by (simp add: round_half_even_def)

lemma fl_13518_hr: "fl (751 / 200) = 4227754150194053 / 1125899906842624"
  using fl_eval_large [of 1 "751 / 200"] by (simp add: round_half_even_def)

lemma humanize_thresholds:
  "humanize s =
     (if s < 60 then format_2f (fl (s / 1)) @ '' sec''
      else if s < 3600 then format_2f (fl (s / 60)) @ '' min''
      else if s < 216000 then format_2f (fl (s / 3600)) @ '' hr''
      else if s < 5184000 then format_2f (fl (s / 86400)) @ '' day''
      else if s < 1893456000 then format_2f (fl (s / 31557600)) @ '' yr''
      else format_2f (fl (s / 3155760000)) @ '' century'')"
  by (simp add: humanize_def units_def)

lemma humanize_loop_find:
  "humanize_loop us s =
     (case find (\<lambda>u. qualifies s u \<or> fst u = ''century'') us of
        None \<Rightarrow> format_2f s @ '' sec''
      | Some u \<Rightarrow> format_2f (fl (s / real_of_int (snd u))) @ '' '' @ fst u)"
  by (induction us s rule: humanize_loop.induct) (simp_all add: qualifies_def)

lemma humanize_one: "humanize 1 = ''1.00 sec''"
  by (simp add: humanize_thresholds fl_one fmt_simps)

lemma humanize_hundredth: "humanize (fl (1 / 100)) = ''0.01 sec''"
  by (simp add: humanize_thresholds fl_hundredth fl_fl_hundredth fmt_simps)

lemma humanize_tiny: "humanize (fl (1 / 10 ^ 10)) = ''0.00 sec''"
  by (simp add: humanize_thresholds fl_tiny fl_fl_tiny fmt_simps)

lemma humanize_13518: "humanize 13518 = ''3.75 hr''"
  by (simp add: humanize_thresholds fl_13518_hr fmt_simps)

lemma humanize_largest_spec_one: "humanize_largest_spec 1 = ''0.00 century''"
  by (simp add: humanize_largest_spec_def units_def qualifies_def fl_century_of_one fmt_simps)

lemma expected_guesses_zero: "expected_guesses 0 = Inr 1"
  by (simp add: expected_guesses_def pow2_def fl_one)

lemma crack_time_estimates_zero:
  "crack_time_estimates 0 guesses_per_sec_default =
     Inr \<lparr>offline_fast = ''0.00 sec'', online_slow = ''0.01 sec''\<rparr>"
  using humanize_tiny humanize_hundredth
  by (simp add: crack_time_estimates_def expected_guesses_zero float_div_def
      guesses_per_sec_default_def)

text \<open>One symbol, such as "!", has \<open>log2(33)\<close> bits: 16.5 expected guesses, and the
  double for \<open>16.5 / 100\<close> is above 0.165.\<close>

lemma fl_16_5: "fl (33 / 2) = 33 / 2"
  using fl_eval_large [of 4 "33 / 2"] by (simp add: round_half_even_def)

lemma fl_0_165: "fl (33 / 200) = 5944751508129055 / 36028797018963968"
  using fl_eval_small [of "33 / 200" 3] by (simp add: round_half_even_def)

lemma fl_fl_0_165:
  "fl (5944751508129055 / 36028797018963968) = 5944751508129055 / 36028797018963968"
  using fl_eval_small [of "5944751508129055 / 36028797018963968" 3]
  by (simp add: round_half_even_def)

lemma fl_16_5_offline:
  "fl (33 / 20000000000) = 7978910409456553 / 4835703278458516698824704"
  using fl_eval_small [of "33 / 20000000000" 30] by (simp add: round_half_even_def)

lemma fl_fl_16_5_offline:
  "fl (7978910409456553 / 4835703278458516698824704) = 7978910409456553 / 4835703278458516698824704"
  using fl_eval_small [of "7978910409456553 / 4835703278458516698824704" 30]
  by (simp add: round_half_even_def)

lemma crack_time_estimates_one_symbol:
  "crack_time_estimates (log 2 33) guesses_per_sec_default =
     Inr \<lparr>offline_fast = ''0.00 sec'', online_slow = ''0.17 sec''\<rparr>"
proof -
  have ge: "(1::real) \<le> log 2 33"
    by simp
  have "log 2 (real 33) < real 6"
    by (rule log_of_power_less) simp_all
  then have lt: "log 2 33 - 1 < (1024::real)"
    by simp
  have e: "expected_guesses (log 2 33) = Inr (fl (2 powr (log 2 33 - 1)))"
    using ge lt by (simp add: expected_guesses_def pow2_def max_def)
  have p: "2 powr (log 2 33 - 1) = (33 / 2 :: real)"
    by (simp add: powr_diff)
  have "expected_guesses (log 2 33) = Inr (33 / 2)"
    unfolding e p fl_16_5 ..
  moreover have "humanize (fl (33 / 2 / 10 ^ 10)) = ''0.00 sec''"
    by (simp add: humanize_thresholds fl_16_5_offline fl_fl_16_5_offline fmt_simps)
  moreover have "humanize (fl (33 / 2 / 100)) = ''0.17 sec''"
    by (simp add: humanize_thresholds fl_0_165 fl_fl_0_165 fmt_simps)
  ultimately show ?thesis
    by (simp add: crack_time_estimates_def float_div_def guesses_per_sec_default_def)
qed

text \<open>
  C4, as the specification has it: at 0 bits the projector yields zero expected guesses and
  both strings are "0.00 sec". The exponent is \<open>max (0 - 1) 0 = 0\<close>, so the code expects
  one guess, and one guess at 100 guesses a second is "0.01 sec".
\<close>

theorem zero_bits_not_zero_guesses:
  "expected_guesses 0 \<noteq> Inr 0 \<and>
   map_sum id online_slow (crack_time_estimates 0 guesses_per_sec_default) \<noteq> Inr ''0.00 sec''"
  by (simp add: expected_guesses_zero crack_time_estimates_zero)

text \<open>
  C4, amended: at 0 bits the projector expects one guess; \<open>offline_fast\<close> is "0.00 sec" and
  \<open>online_slow\<close> is "0.01 sec".
\<close>

theorem zero_bits_one_guess:
  "expected_guesses 0 = Inr 1 \<and>
   crack_time_estimates 0 guesses_per_sec_default =
     Inr \<lparr>offline_fast = ''0.00 sec'', online_slow = ''0.01 sec''\<rparr>"
  by (simp add: expected_guesses_zero crack_time_estimates_zero)

text \<open>
  C7, as the specification has it: the humanizer selects the largest unit whose 60-fold span
  exceeds the duration. For one second that unit is the century, but the code answers in
  seconds.
\<close>

theorem humanize_not_largest_unit:
  "humanize 1 = ''1.00 sec'' \<and> humanize_largest_spec 1 = ''0.00 century'' \<and>
   humanize 1 \<noteq> humanize_largest_spec 1"
  by (simp add: humanize_one humanize_largest_spec_one)

text \<open>
  C7, amended: the humanizer selects the first (smallest) unit of the ordered list
  sec, min, hr, day, yr, century whose 60-fold span exceeds the duration, and the century
  when there is none; it prints the float quotient of the duration by that unit's span, to
  two decimal places, a space and the unit's name. The thresholds are therefore 60, 3600,
  216000, 5184000 and 1893456000 seconds. The quotient is the double nearest to the exact
  one: 13518 seconds are printed as "3.75 hr", the double for 3.755 being below it.
\<close>

theorem humanize_first_unit:
  "humanize s =
     (case find (qualifies s) units of
        None \<Rightarrow> format_2f (fl (s / 3155760000)) @ '' century''
      | Some u \<Rightarrow> format_2f (fl (s / real_of_int (snd u))) @ '' '' @ fst u) \<and>
   humanize s =
     (if s < 60 then format_2f (fl (s / 1)) @ '' sec''
      else if s < 3600 then format_2f (fl (s / 60)) @ '' min''
      else if s < 216000 then format_2f (fl (s / 3600)) @ '' hr''
      else if s < 5184000 then format_2f (fl (s / 86400)) @ '' day''
      else if s < 1893456000 then format_2f (fl (s / 31557600)) @ '' yr''
      else format_2f (fl (s / 3155760000)) @ '' century'') \<and>
   humanize 1 = ''1.00 sec'' \<and> humanize 13518 = ''3.75 hr''"
proof (intro conjI)
  show "humanize s =
     (case find (qualifies s) units of
        None \<Rightarrow> format_2f (fl (s / 3155760000)) @ '' century''
      | Some u \<Rightarrow> format_2f (fl (s / real_of_int (snd u))) @ '' '' @ fst u)"
    unfolding humanize_def humanize_loop_find
    by (simp add: units_def qualifies_def)
  show "humanize s =
     (if s < 60 then format_2f (fl (s / 1)) @ '' sec''
      else if s < 3600 then format_2f (fl (s / 60)) @ '' min''
      else if s < 216000 then format_2f (fl (s / 3600)) @ '' hr''
      else if s < 5184000 then format_2f (fl (s / 86400)) @ '' day''
      else if s < 1893456000 then format_2f (fl (s / 31557600)) @ '' yr''
      else format_2f (fl (s / 3155760000)) @ '' century'')"
    by (rule humanize_thresholds)
  show "humanize 1 = ''1.00 sec''"
    by (rule humanize_one)
  show "humanize 13518 = ''3.75 hr''"
    by (rule humanize_13518)
qed

subsection \<open>The empty password\<close>

text \<open>
  C3: what \<open>score_password\<close> returns for the empty string. Score, label, bits, the single
  feedback item and the estimates for zero bits are as stated; the dictionary has no
  \<open>penalty_detail\<close> entry, which only the \<open>return\<close> of the non-empty path writes.
\<close>

theorem score_password_empty:
  "score_password [] =
     Inr \<lparr>score = 0, label = ''Very Weak'', bits = 0, penalty_detail = None,
          feedback = [Password_is_empty],
          estimates = \<lparr>offline_fast = ''0.00 sec'', online_slow = ''0.01 sec''\<rparr>\<rparr>"
  by (simp add: score_password_def crack_time_estimates_zero)

subsection \<open>Score aggregator\<close>

lemma py_int_nonneg: "0 \<le> x \<Longrightarrow> py_int x = \<lfloor>x\<rfloor>"
  by (simp add: py_int_def)

lemma varieties_le_4: "varieties p \<le> 4"
  by (simp add: varieties_def)

lemma varieties_filter:
  "varieties p = length (filter (\<lambda>h. h p) [has_lower, has_upper, has_digit, has_symbol])"
  by (simp add: varieties_def)

lemma variety_lookup:
  "[0, 10, 20, 30, 35] ! varieties p =
     (if varieties p = 0 then 0 else if varieties p = 1 then 10 else if varieties p = 2 then 20
      else if varieties p = 3 then 30 else (35::int))"
proof -
  have "varieties p = 0 \<or> varieties p = 1 \<or> varieties p = 2 \<or> varieties p = 3 \<or> varieties p = 4"
    using varieties_le_4 [of p] by arith
  then show ?thesis
    by (elim disjE) simp_all
qed

lemma length_stage_fst:
  "fst (length_stage L sc fb) =
     sc + (if L < 6 then 0 else if L < 8 then 10 else if L < 12 then 20
           else if L < 16 then 30 else 40)"
  by (simp add: length_stage_def)

lemma length_stage_snd:
  "snd (length_stage L sc fb) = fb @ (if L < 6 then [Use_at_least_8_12_characters] else [])"
  by (simp add: length_stage_def)

lemma append_if_append: "append_if c msg fb = fb @ (if c then [msg] else [])"
  by (simp add: append_if_def)

lemma l_bits_body: "l_bits (score_body p) = estimate_entropy_bits p"
  unfolding score_body_def Let_def split_def locals.select_convs ..

lemma l_raw_body:
  "l_raw (score_body p) =
     (if length p < 6 then 0 else if length p < 8 then 10 else if length p < 12 then 20
      else if length p < 16 then 30 else 40) +
     [0, 10, 20, 30, 35] ! varieties p + min (py_int (estimate_entropy_bits p / 4)) 25"
  unfolding score_body_def Let_def split_def locals.select_convs length_stage_fst
  by simp

lemma l_counts_body:
  "l_seqs (score_body p) = find_sequences p"
  "l_reps (score_body p) = repetition_penalty p"
  "l_dicts (score_body p) = dictionary_hits p"
  "l_penalty (score_body p) =
     find_sequences p * 8 + repetition_penalty p * 8 + dictionary_hits p * 12"
  unfolding score_body_def Let_def split_def locals.select_convs
  by (rule refl)+

lemma l_score_body:
  "l_score (score_body p) =
     max 0 (min 100 (l_raw (score_body p) - l_penalty (score_body p)))"
  unfolding score_body_def Let_def split_def locals.select_convs ..

lemma l_label_body:
  "l_label (score_body p) =
     (if l_score (score_body p) < 20 then ''Very Weak''
      else if l_score (score_body p) < 40 then ''Weak''
      else if l_score (score_body p) < 60 then ''Moderate''
      else if l_score (score_body p) < 80 then ''Strong''
      else ''Excellent'')"
  unfolding score_body_def Let_def split_def locals.select_convs ..

lemma l_feedback_body:
  "l_feedback (score_body p) =
     (if length p < 6 then [Use_at_least_8_12_characters] else []) @
     (if find_sequences p \<noteq> 0 then [Avoid_sequential_patterns] else []) @
     (if repetition_penalty p \<noteq> 0 then [Avoid_repeated_patterns] else []) @
     (if dictionary_hits p \<noteq> 0 then [Avoid_common_words] else []) @
     (if \<not> has_upper p then [Add_uppercase_letters] else []) @
     (if \<not> has_lower p then [Add_lowercase_letters] else []) @
     (if \<not> has_digit p then [Add_digits] else []) @
     (if \<not> has_symbol p then [Add_symbols] else [])"
  unfolding score_body_def Let_def split_def locals.select_convs length_stage_snd
    append_if_append
  by (simp only: append_Nil append_assoc)

subsection \<open>Detector counts\<close>

lemma scan_window_hits:
  "scan_window lp seq i c =
     c + of_bool (py_in (take 3 (drop i seq)) lp) + of_bool (py_in (rev (take 3 (drop i seq))) lp)"
  by (simp add: scan_window_def Let_def)

lemma fold_scan_window:
  "fold (scan_window lp seq) is c = c + (\<Sum>i\<leftarrow>is. scan_window lp seq i 0)"
proof (induction "is" arbitrary: c)
  case Nil
  show ?case by simp
next
  case (Cons i "is")
  have "scan_window lp seq i c = c + scan_window lp seq i 0"
    by (simp add: scan_window_hits)
  then show ?case
    by (simp add: Cons.IH)
qed

lemma fold_windows:
  "fold (\<lambda>seq count. fold (scan_window lp seq) [0 ..< length seq - 2] count) seqs c =
     c + (\<Sum>seq\<leftarrow>seqs. \<Sum>i\<leftarrow>[0 ..< length seq - 2]. scan_window lp seq i 0)"
proof (induction seqs arbitrary: c)
  case Nil
  show ?case by simp
next
  case (Cons seq seqs)
  show ?case
    by (simp add: Cons.IH fold_scan_window [of lp seq _ c])
qed

lemma find_sequences_sum:
  "find_sequences p =
     (\<Sum>seq\<leftarrow>SEQUENCES. \<Sum>i\<leftarrow>[0 ..< length seq - 2]. scan_window (lower p) seq i 0)"
  by (simp add: find_sequences_def Let_def fold_windows)

lemma scan_window_nonneg: "0 \<le> scan_window lp seq i 0"
  by (simp add: scan_window_hits)

lemma find_sequences_nonneg: "0 \<le> find_sequences p"
  unfolding find_sequences_sum
  by (intro sum_list_nonneg) (auto intro!: sum_list_nonneg scan_window_nonneg)

lemma repetition_penalty_flags:
  "repetition_penalty p =
     of_bool (re_search (group_repeat_here 1 2) p) +
     of_bool (re_search (group_repeat_here 2 1) p) +
     of_bool (re_search (group_repeat_here 3 1) p)"
  by (simp add: repetition_penalty_def Let_def)

lemma repetition_penalty_range: "0 \<le> repetition_penalty p \<and> repetition_penalty p \<le> 3"
  by (simp add: repetition_penalty_flags)

lemma fold_hits:
  "fold (\<lambda>w hits. if P w then hits + 1 else hits) ws (c::int) = c + int (length (filter P ws))"
  by (induction ws arbitrary: c) simp_all

lemma dictionary_hits_filter:
  "dictionary_hits p =
     int (length (filter (\<lambda>w. py_in w (lower p) \<or> py_in w (translate LEET_MAP (lower p)))
       COMMON_WORDS))"
  by (simp add: dictionary_hits_def Let_def fold_hits)

lemma dictionary_hits_nonneg: "0 \<le> dictionary_hits p"
  by (simp add: dictionary_hits_filter)

subsection \<open>The returned dictionary\<close>

lemma score_password_nonempty:
  assumes "p \<noteq> []"
  shows "score_password p =
     (case crack_time_estimates (estimate_entropy_bits p) guesses_per_sec_default of
        Inl e \<Rightarrow> Inl e
      | Inr est \<Rightarrow>
          Inr \<lparr>score = l_score (score_body p), label = l_label (score_body p),
               bits = round2 (estimate_entropy_bits p),
               penalty_detail =
                 Some \<lparr>sequences = find_sequences p, repeats = repetition_penalty p,
                       dictionary_hits_count = dictionary_hits p\<rparr>,
               feedback = l_feedback (score_body p), estimates = est\<rparr>)"
  using assms
  by (simp add: score_password_def Let_def l_bits_body l_counts_body split: sum.split)

lemma crack_time_estimates_cases:
  "crack_time_estimates b guesses_per_sec_default =
     (if 1025 \<le> b then Inl OverflowError
      else Inr \<lparr>offline_fast = humanize (fl (fl (2 powr max (b - 1) 0) / 10 ^ 10)),
                online_slow = humanize (fl (fl (2 powr max (b - 1) 0) / 100))\<rparr>)"
proof -
  have "1024 \<le> max (b - 1) 0 \<longleftrightarrow> 1025 \<le> b"
    by (auto simp: max_def)
  then show ?thesis
    by (simp add: crack_time_estimates_def expected_guesses_def pow2_def float_div_def
        guesses_per_sec_default_def)
qed

lemma score_password_overflow_iff:
  assumes "p \<noteq> []"
  shows "score_password p = Inl OverflowError \<longleftrightarrow> 1025 \<le> estimate_entropy_bits p"
  using assms by (simp add: score_password_nonempty crack_time_estimates_cases)

lemma score_password_returns:
  assumes "p \<noteq> []" and "estimate_entropy_bits p < 1025"
  shows "score_password p =
     Inr \<lparr>score = l_score (score_body p), label = l_label (score_body p),
          bits = round2 (estimate_entropy_bits p),
          penalty_detail =
            Some \<lparr>sequences = find_sequences p, repeats = repetition_penalty p,
                  dictionary_hits_count = dictionary_hits p\<rparr>,
          feedback = l_feedback (score_body p),
          estimates =
            \<lparr>offline_fast =
               humanize (fl (fl (2 powr max (estimate_entropy_bits p - 1) 0) / 10 ^ 10)),
             online_slow =
               humanize (fl (fl (2 powr max (estimate_entropy_bits p - 1) 0) / 100))\<rparr>\<rparr>"
  using assms by (simp add: score_password_nonempty crack_time_estimates_cases)

lemma score_password_fields:
  assumes "p \<noteq> []" and "score_password p = Inr r"
  shows "score r = l_score (score_body p)" and "label r = l_label (score_body p)"
    and "feedback r = l_feedback (score_body p)"
    and "penalty_detail r =
       Some \<lparr>sequences = find_sequences p, repeats = repetition_penalty p,
             dictionary_hits_count = dictionary_hits p\<rparr>"
  using assms by (auto simp: score_password_nonempty split: sum.splits)

lemma entropy_le_7_per_char: "estimate_entropy_bits p \<le> 7 * real (length p)"
proof -
  have "char_pool_size p \<le> 128"
    by (simp add: char_pool_size_def)
  then have "real (char_pool_size p) \<le> 2 ^ 7"
    by simp
  moreover have "0 < real (char_pool_size p)"
    using char_pool_size_pos [of p] by simp
  ultimately have "log 2 (real (char_pool_size p)) \<le> 7"
    using log_of_power_le [of "char_pool_size p" 2 7] char_pool_size_pos [of p] by simp
  then have "real (length p) * log 2 (real (char_pool_size p)) \<le> real (length p) * 7"
    by (intro mult_left_mono) simp_all
  then show ?thesis
    by (simp add: estimate_entropy_bits_def mult.commute)
qed

subsection \<open>Raw score, final score and label\<close>

lemma classes_pw:
  "has_lower ''Password123'' \<and> has_upper ''Password123'' \<and> has_digit ''Password123'' \<and>
   \<not> has_symbol ''Password123''"
  by code_simp

lemma detectors_pw:
  "find_sequences ''Password123'' = 2" "repetition_penalty ''Password123'' = 0"
  "dictionary_hits ''Password123'' = 1"
  by code_simp+

lemma bonus_pw: "\<lfloor>estimate_entropy_bits ''Password123'' / 4\<rfloor> = 16"
proof -
  have "char_pool_size ''Password123'' = 62"
    using classes_pw by (simp add: char_pool_size_classes)
  then have "estimate_entropy_bits ''Password123'' = real 11 * log 2 (real 62)"
    by (simp add: estimate_entropy_bits_def)
  moreover have "\<lfloor>real 11 * log 2 (real 62) / 4\<rfloor> = int 16"
    by (rule floor_bits) simp_all
  ultimately show ?thesis
    by simp
qed

lemma raw_pw: "l_raw (score_body ''Password123'') = 66"
proof -
  have "varieties ''Password123'' = 3"
    using classes_pw by (simp add: varieties_def)
  moreover have "py_int (estimate_entropy_bits ''Password123'' / 4) = 16"
    using estimate_entropy_bits_nonneg [of "''Password123''"] bonus_pw
    by (simp add: py_int_nonneg)
  ultimately show ?thesis
    by (simp add: l_raw_body)
qed

text \<open>
  C2: for a non-empty password the value of \<open>score\<close> before the penalties is the sum of
  the length band (below 6: 0, 6 to 7: 10, 8 to 11: 20, 12 to 15: 30, from 16: 40), the
  variety score of the number of character classes present (0, 10, 20, 30, 35 for 0 to 4
  classes) and the entropy bonus, the smaller of \<open>\<lfloor>bits / 4\<rfloor>\<close> and 25. The list index
  is always in range (\<open>varieties_le_4\<close>), and \<open>int\<close> truncates a non-negative number.
\<close>

theorem raw_score_sum:
  assumes "p \<noteq> []"
  shows "l_raw (score_body p) =
     (if length p < 6 then 0
      else if 6 \<le> length p \<and> length p \<le> 7 then 10
      else if 8 \<le> length p \<and> length p \<le> 11 then 20
      else if 12 \<le> length p \<and> length p \<le> 15 then 30
      else 40) +
     (let n = length (filter (\<lambda>present. present p)
                [has_lower, has_upper, has_digit, has_symbol])
      in if n = 0 then 0 else if n = 1 then 10 else if n = 2 then 20
         else if n = 3 then 30 else 35) +
     min \<lfloor>estimate_entropy_bits p / 4\<rfloor> 25"
proof -
  have band: "(if length p < 6 then 0 else if length p < 8 then 10
        else if length p < 12 then 20 else if length p < 16 then 30 else (40::int)) =
      (if length p < 6 then 0
       else if 6 \<le> length p \<and> length p \<le> 7 then 10
       else if 8 \<le> length p \<and> length p \<le> 11 then 20
       else if 12 \<le> length p \<and> length p \<le> 15 then 30
       else 40)"
    by auto
  have "0 \<le> estimate_entropy_bits p / 4"
    using estimate_entropy_bits_nonneg [of p] by simp
  then have bonus: "py_int (estimate_entropy_bits p / 4) = \<lfloor>estimate_entropy_bits p / 4\<rfloor>"
    by (rule py_int_nonneg)
  have "l_raw (score_body p) =
     (if length p < 6 then 0
      else if 6 \<le> length p \<and> length p \<le> 7 then 10
      else if 8 \<le> length p \<and> length p \<le> 11 then 20
      else if 12 \<le> length p \<and> length p \<le> 15 then 30
      else 40) +
     (if varieties p = 0 then 0 else if varieties p = 1 then 10
      else if varieties p = 2 then 20 else if varieties p = 3 then 30 else 35) +
     min \<lfloor>estimate_entropy_bits p / 4\<rfloor> 25"
    by (simp only: l_raw_body band bonus variety_lookup)
  then show ?thesis
    by (simp only: varieties_filter Let_def)
qed

theorem raw_score_sum_witness:
  "l_raw (score_body ''Password123'') = 20 + 30 + 16"
proof -
  have "''Password123'' \<noteq> []"
    by simp
  from raw_score_sum [OF this] show ?thesis
    using classes_pw bonus_pw by simp
qed

text \<open>
  C1: for a non-empty password the final score is the raw score minus
  \<open>sequences * 8 + repetitions * 8 + dictionary hits * 12\<close>, clamped to 0 .. 100, and
  the label is the score's band: below 20 Very Weak, below 40 Weak, below 60 Moderate,
  below 80 Strong, else Excellent. The returned dictionary carries exactly these two values,
  and it is returned whenever the entropy estimate is below 1025 bits.
\<close>

theorem final_score_clamped:
  assumes "p \<noteq> []"
  shows "l_score (score_body p) =
       max 0 (min 100 (l_raw (score_body p) -
         (find_sequences p * 8 + repetition_penalty p * 8 + dictionary_hits p * 12))) \<and>
     0 \<le> l_score (score_body p) \<and> l_score (score_body p) \<le> 100 \<and>
     l_label (score_body p) =
       (if l_score (score_body p) < 20 then ''Very Weak''
        else if l_score (score_body p) < 40 then ''Weak''
        else if l_score (score_body p) < 60 then ''Moderate''
        else if l_score (score_body p) < 80 then ''Strong''
        else ''Excellent'') \<and>
     (\<forall>r. score_password p = Inr r \<longrightarrow>
        score r = l_score (score_body p) \<and> label r = l_label (score_body p)) \<and>
     (estimate_entropy_bits p < 1025 \<longrightarrow> (\<exists>r. score_password p = Inr r))"
proof (intro conjI allI impI)
  show "l_score (score_body p) =
       max 0 (min 100 (l_raw (score_body p) -
         (find_sequences p * 8 + repetition_penalty p * 8 + dictionary_hits p * 12)))"
    by (simp only: l_score_body l_counts_body)
  show "0 \<le> l_score (score_body p)" "l_score (score_body p) \<le> 100"
    by (simp_all add: l_score_body)
  show "l_label (score_body p) =
       (if l_score (score_body p) < 20 then ''Very Weak''
        else if l_score (score_body p) < 40 then ''Weak''
        else if l_score (score_body p) < 60 then ''Moderate''
        else if l_score (score_body p) < 80 then ''Strong''
        else ''Excellent'')"
    by (rule l_label_body)
next
  fix r
  assume "score_password p = Inr r"
  with assms show "score r = l_score (score_body p)" "label r = l_label (score_body p)"
    by (simp_all add: score_password_fields)
next
  assume "estimate_entropy_bits p < 1025"
  with assms show "\<exists>r. score_password p = Inr r"
    by (simp add: score_password_returns)
qed

theorem final_score_clamped_witness:
  "l_score (score_body ''Password123'') = 38 \<and>
   l_label (score_body ''Password123'') = ''Weak'' \<and>
   map_sum id score (score_password ''Password123'') = Inr 38 \<and>
   map_sum id label (score_password ''Password123'') = Inr ''Weak''"
proof -
  have "''Password123'' \<noteq> []"
    by simp
  note inst = final_score_clamped [OF this]
  have sc: "l_score (score_body ''Password123'') = 38"
    using inst by (simp add: raw_pw detectors_pw)
  have lab: "l_label (score_body ''Password123'') = ''Weak''"
    using inst sc by simp
  have "estimate_entropy_bits ''Password123'' < 1025"
    using entropy_le_7_per_char [of "''Password123''"] by simp
  with inst obtain r where r: "score_password ''Password123'' = Inr r"
    by blast
  with inst have "score r = l_score (score_body ''Password123'')"
    and "label r = l_label (score_body ''Password123'')"
    by blast+
  with r sc lab show ?thesis
    by simp
qed

subsection \<open>Feedback list\<close>

lemma classes_abcdef:
  "has_lower ''abcdef'' \<and> \<not> has_upper ''abcdef'' \<and> \<not> has_digit ''abcdef'' \<and>
   \<not> has_symbol ''abcdef''"
  by code_simp

lemma detectors_abc:
  "find_sequences ''abc'' = 1" "repetition_penalty ''abc'' = 0" "dictionary_hits ''abc'' = 0"
  by code_simp+

lemma detectors_abcdef:
  "find_sequences ''abcdef'' = 4" "repetition_penalty ''abcdef'' = 0"
  "dictionary_hits ''abcdef'' = 0"
  by code_simp+

lemma feedback_abc:
  "l_feedback (score_body ''abc'') =
     [Use_at_least_8_12_characters, Avoid_sequential_patterns, Add_uppercase_letters,
      Add_digits, Add_symbols]"
  using classes_abc by (simp add: l_feedback_body detectors_abc)

lemma score_password_short:
  assumes "p \<noteq> []" and "length p \<le> 146"
  shows "\<exists>r. score_password p = Inr r"
proof -
  have "estimate_entropy_bits p \<le> 7 * real (length p)"
    by (rule entropy_le_7_per_char)
  also have "\<dots> \<le> 7 * 146"
    using assms(2) by simp
  finally have "estimate_entropy_bits p < 1025"
    by simp
  with assms(1) show ?thesis
    by (simp add: score_password_returns)
qed

text \<open>
  C8, as the specification has it: whenever a sequence is found, the sequence warning is the
  first element of the feedback list. For "abc" a sequence is found, but the list starts
  with the advice on length, which a password shorter than 6 gets before any detector runs.
\<close>

theorem feedback_sequence_warning_not_first:
  "0 < find_sequences ''abc'' \<and>
   hd (l_feedback (score_body ''abc'')) \<noteq> Avoid_sequential_patterns \<and>
   map_sum id feedback (score_password ''abc'') =
     Inr [Use_at_least_8_12_characters, Avoid_sequential_patterns, Add_uppercase_letters,
          Add_digits, Add_symbols]"
proof -
  have "\<exists>r. score_password ''abc'' = Inr r"
    by (rule score_password_short) simp_all
  then obtain r where r: "score_password ''abc'' = Inr r" ..
  then have "feedback r = l_feedback (score_body ''abc'')"
    by (intro score_password_fields) simp_all
  with r show ?thesis
    by (simp add: feedback_abc detectors_abc)
qed

text \<open>
  C8, amended: for a non-empty password the feedback list is, in this order, the advice on
  length iff the length is below 6, the sequence warning iff sequences are found, the
  repetition warning iff repetitions are found, the dictionary warning iff dictionary words
  are found, then one message per absent character class in the order upper case, lower
  case, digit, symbol. So the sequence warning, when present, is first for a length of at
  least 6 and second, after the advice on length, below that. The returned dictionary
  carries this list.
\<close>

theorem feedback_order:
  assumes "p \<noteq> []"
  shows "l_feedback (score_body p) =
       (if length p < 6 then [Use_at_least_8_12_characters] else []) @
       (if 0 < find_sequences p then [Avoid_sequential_patterns] else []) @
       (if 0 < repetition_penalty p then [Avoid_repeated_patterns] else []) @
       (if 0 < dictionary_hits p then [Avoid_common_words] else []) @
       (if \<not> has_upper p then [Add_uppercase_letters] else []) @
       (if \<not> has_lower p then [Add_lowercase_letters] else []) @
       (if \<not> has_digit p then [Add_digits] else []) @
       (if \<not> has_symbol p then [Add_symbols] else []) \<and>
     (\<forall>r. score_password p = Inr r \<longrightarrow> feedback r = l_feedback (score_body p)) \<and>
     (0 < find_sequences p \<and> 6 \<le> length p \<longrightarrow>
        hd (l_feedback (score_body p)) = Avoid_sequential_patterns) \<and>
     (0 < find_sequences p \<and> length p < 6 \<longrightarrow>
        take 2 (l_feedback (score_body p)) =
          [Use_at_least_8_12_characters, Avoid_sequential_patterns])"
proof -
  have nz: "find_sequences p \<noteq> 0 \<longleftrightarrow> 0 < find_sequences p"
    "repetition_penalty p \<noteq> 0 \<longleftrightarrow> 0 < repetition_penalty p"
    "dictionary_hits p \<noteq> 0 \<longleftrightarrow> 0 < dictionary_hits p"
    using find_sequences_nonneg [of p] repetition_penalty_range [of p]
      dictionary_hits_nonneg [of p] by auto
  have fb: "l_feedback (score_body p) =
       (if length p < 6 then [Use_at_least_8_12_characters] else []) @
       (if 0 < find_sequences p then [Avoid_sequential_patterns] else []) @
       (if 0 < repetition_penalty p then [Avoid_repeated_patterns] else []) @
       (if 0 < dictionary_hits p then [Avoid_common_words] else []) @
       (if \<not> has_upper p then [Add_uppercase_letters] else []) @
       (if \<not> has_lower p then [Add_lowercase_letters] else []) @
       (if \<not> has_digit p then [Add_digits] else []) @
       (if \<not> has_symbol p then [Add_symbols] else [])"
    by (simp only: l_feedback_body nz)
  have ret: "\<forall>r. score_password p = Inr r \<longrightarrow> feedback r = l_feedback (score_body p)"
    using assms by (simp add: score_password_fields)
  have first: "0 < find_sequences p \<and> 6 \<le> length p \<longrightarrow>
        hd (l_feedback (score_body p)) = Avoid_sequential_patterns"
    unfolding fb by simp
  have second: "0 < find_sequences p \<and> length p < 6 \<longrightarrow>
        take 2 (l_feedback (score_body p)) =
          [Use_at_least_8_12_characters, Avoid_sequential_patterns]"
    unfolding fb by simp
  from fb ret first second show ?thesis
    by (intro conjI)
qed

theorem feedback_order_witness:
  "l_feedback (score_body ''abcdef'') =
     [Avoid_sequential_patterns, Add_uppercase_letters, Add_digits, Add_symbols] \<and>
   take 2 (l_feedback (score_body ''abc'')) =
     [Use_at_least_8_12_characters, Avoid_sequential_patterns] \<and>
   hd (l_feedback (score_body ''abcdef'')) = Avoid_sequential_patterns \<and>
   map_sum id feedback (score_password ''abcdef'') =
     Inr [Avoid_sequential_patterns, Add_uppercase_letters, Add_digits, Add_symbols]"
proof -
  have "''abcdef'' \<noteq> []"
    by simp
  note inst = feedback_order [OF this]
  have fb: "l_feedback (score_body ''abcdef'') =
     [Avoid_sequential_patterns, Add_uppercase_letters, Add_digits, Add_symbols]"
    using inst classes_abcdef by (simp add: detectors_abcdef)
  have "\<exists>r. score_password ''abcdef'' = Inr r"
    by (rule score_password_short) simp_all
  then obtain r where r: "score_password ''abcdef'' = Inr r" ..
  with inst have "feedback r = l_feedback (score_body ''abcdef'')"
    by blast
  moreover have "''abc'' \<noteq> []"
    by simp
  from feedback_order [OF this]
  have "take 2 (l_feedback (score_body ''abc'')) =
     [Use_at_least_8_12_characters, Avoid_sequential_patterns]"
    by (simp add: detectors_abc)
  ultimately show ?thesis
    using r fb by simp
qed

subsection \<open>When the entry point raises\<close>

lemma classes_long:
  "has_lower (concat (replicate 50 ''aA1!'')) \<and> has_upper (concat (replicate 50 ''aA1!'')) \<and>
   has_digit (concat (replicate 50 ''aA1!'')) \<and> has_symbol (concat (replicate 50 ''aA1!''))"
  by code_simp

lemma length_long: "length (concat (replicate 50 ''aA1!'')) = 200"
  by code_simp

lemma entropy_long: "1025 \<le> estimate_entropy_bits (concat (replicate 50 ''aA1!''))"
proof -
  have "char_pool_size (concat (replicate 50 ''aA1!'')) = 95"
    using classes_long by (simp add: char_pool_size_classes)
  then have eq: "estimate_entropy_bits (concat (replicate 50 ''aA1!'')) = 200 * log 2 95"
    by (simp add: estimate_entropy_bits_def length_long)
  have "real 6 \<le> log 2 (real 95)"
    by (rule le_log2_of_power) simp
  then show ?thesis
    unfolding eq by simp
qed

text \<open>
  On the non-empty path \<open>score_password\<close> calls \<open>crack_time_estimates\<close> with the entropy
  estimate, and \<open>2 ** max(bits - 1, 0)\<close> raises \<open>OverflowError\<close> from 1025 bits on: the
  entry point returns a dictionary exactly for the passwords below 1025 bits, which include
  all passwords of at most 146 characters, and raises for the others, such as a
  200-character password that uses all four classes.
\<close>

theorem score_password_raises_overflow:
  assumes "p \<noteq> []"
  shows "(score_password p = Inl OverflowError \<longleftrightarrow> 1025 \<le> estimate_entropy_bits p) \<and>
     ((\<exists>r. score_password p = Inr r) \<longleftrightarrow> estimate_entropy_bits p < 1025) \<and>
     (length p \<le> 146 \<longrightarrow> (\<exists>r. score_password p = Inr r))"
proof (intro conjI impI)
  show "score_password p = Inl OverflowError \<longleftrightarrow> 1025 \<le> estimate_entropy_bits p"
    using assms by (rule score_password_overflow_iff)
  show "(\<exists>r. score_password p = Inr r) \<longleftrightarrow> estimate_entropy_bits p < 1025"
    using assms by (auto simp: score_password_nonempty crack_time_estimates_cases)
next
  assume "length p \<le> 146"
  with assms show "\<exists>r. score_password p = Inr r"
    by (rule score_password_short)
qed

theorem score_password_raises_overflow_witness:
  "score_password (concat (replicate 50 ''aA1!'')) = Inl OverflowError \<and>
   length (concat (replicate 50 ''aA1!'')) = 200 \<and>
   (\<exists>r. score_password ''Password123'' = Inr r)"
proof -
  have "concat (replicate 50 ''aA1!'') \<noteq> []"
    using length_long by auto
  from score_password_raises_overflow [OF this] entropy_long
  have "score_password (concat (replicate 50 ''aA1!'')) = Inl OverflowError"
    by simp
  moreover have "''Password123'' \<noteq> []"
    by simp
  from score_password_raises_overflow [OF this]
  have "length ''Password123'' \<le> 146 \<longrightarrow> (\<exists>r. score_password ''Password123'' = Inr r)"
    by blast
  then have "\<exists>r. score_password ''Password123'' = Inr r"
    by simp
  ultimately show ?thesis
    using length_long by simp
qed

subsection \<open>Sequence detector\<close>

lemma take_length_prefix: "take (length n) xs = n \<longleftrightarrow> prefix n xs"
proof
  assume "take (length n) xs = n"
  then have "xs = n @ drop (length n) xs"
    by (metis append_take_drop_id)
  then show "prefix n xs"
    by (metis prefixI)
next
  assume "prefix n xs"
  then obtain suf where "xs = n @ suf"
    by (auto simp: prefix_def)
  then show "take (length n) xs = n"
    by simp
qed

lemma py_in_sublist: "py_in needle hay \<longleftrightarrow> sublist needle hay"
proof (induction hay)
  case Nil
  show ?case by simp
next
  case (Cons h hay)
  show ?case
    by (simp add: Cons.IH take_length_prefix sublist_Cons_right del: take_Suc_Cons)
qed

lemma py_in_append: "py_in needle hay \<longleftrightarrow> (\<exists>pre suf. hay = pre @ needle @ suf)"
  by (simp add: py_in_sublist sublist_def)

lemma py_in_set: "py_in needle hay \<Longrightarrow> set needle \<subseteq> set hay"
  by (auto simp: py_in_append)

lemma lower_char_not_upper: "\<not> isupper (lower_char c)"
proof (cases "isupper c")
  case False
  then show ?thesis
    by (simp add: lower_char_def)
next
  case True
  then have "ord c + 32 < 256"
    by (auto simp: isupper_def Let_def)
  then have "ord (char_of (ord c + 32)) = ord c + 32"
    by (simp add: ord_def)
  with True show ?thesis
    by (auto simp: lower_char_def isupper_def Let_def)
qed

lemma lower_no_upper: "c \<in> set (lower p) \<Longrightarrow> \<not> isupper c"
  by (auto simp: lower_def lower_char_not_upper)

lemma upper_alphabet: "list_all isupper (SEQUENCES ! 1)"
  by code_simp

lemma lower_alphabets:
  "lower (SEQUENCES ! 0) = SEQUENCES ! 0" "lower (SEQUENCES ! 2) = SEQUENCES ! 2"
  "lower (SEQUENCES ! 3) = SEQUENCES ! 3"
  by code_simp+

lemma upper_chunk_never_in_lower:
  assumes "i < length (SEQUENCES ! 1)" and "set chunk = set (take 3 (drop i (SEQUENCES ! 1)))"
  shows "\<not> py_in chunk (lower p)"
proof
  assume "py_in chunk (lower p)"
  then have sub: "set chunk \<subseteq> set (lower p)"
    by (rule py_in_set)
  have "(SEQUENCES ! 1) ! i \<in> set (take 3 (drop i (SEQUENCES ! 1)))"
    using assms(1) by (cases "drop i (SEQUENCES ! 1)") (auto simp: hd_drop_conv_nth dest: arg_cong [where f = hd])
  moreover have "isupper ((SEQUENCES ! 1) ! i)"
    using upper_alphabet assms(1) by (simp add: list_all_length)
  ultimately show False
    using sub assms(2) lower_no_upper by blast
qed

lemma length_upper_alphabet: "length (SEQUENCES ! 1) = 26"
  by (simp add: SEQUENCES_def)

lemma detectors_case:
  "find_sequences ''abc'' = 1" "find_sequences ''ABC'' = 1" "find_sequences ''aBc'' = 1"
  "find_sequences ''abccba'' = 2"
  by code_simp+

lemma window_abccba: "scan_window (lower ''abccba'') (SEQUENCES ! 0) 0 0 = 2"
  by code_simp

lemma lower_ABC: "lower ''ABC'' = ''abc''" "lower ''abc'' = ''abc''"
  by code_simp+

text \<open>
  C5, as the specification has it: the comparison ignores case for each of the four
  alphabets, so that "abc" in any letter case matches the window of the upper-case alphabet
  as well as that of the lower-case one. The window "ABC" is compared as it is with the
  lower-cased password, which holds no upper-case letter: it matches neither "abc" nor
  "ABC", and both passwords count one sequence, not two.
\<close>

theorem uppercase_window_never_matches:
  "\<not> py_in (take 3 (drop 0 (SEQUENCES ! 1))) (lower ''abc'') \<and>
   \<not> py_in (take 3 (drop 0 (SEQUENCES ! 1))) (lower ''ABC'') \<and>
   scan_window (lower ''ABC'') (SEQUENCES ! 1) 0 0 = 0 \<and>
   find_sequences ''abc'' = 1 \<and> find_sequences ''ABC'' = 1"
proof -
  have "\<not> py_in (take 3 (drop 0 (SEQUENCES ! 1))) (lower ''abc'')"
    "\<not> py_in (take 3 (drop 0 (SEQUENCES ! 1))) (lower ''ABC'')"
    "scan_window (lower ''ABC'') (SEQUENCES ! 1) 0 0 = 0"
    by code_simp+
  then show ?thesis
    by (simp add: detectors_case)
qed

text \<open>
  C5, amended: the detector lower-cases the password and compares each window as it is.
  The count therefore depends on the password only through its lower-cased form; the
  lower-case, digit and keyboard alphabets are their own lower-cased forms, so for them a
  window counts iff the chunk, or its reverse, occurs in the password ignoring case; and no
  window of the upper-case alphabet ever matches.
\<close>

theorem sequences_case_insensitive_in_password:
  "(lower p = lower q \<longrightarrow> find_sequences p = find_sequences q) \<and>
   lower (SEQUENCES ! 0) = SEQUENCES ! 0 \<and> lower (SEQUENCES ! 2) = SEQUENCES ! 2 \<and>
   lower (SEQUENCES ! 3) = SEQUENCES ! 3 \<and>
   (\<forall>seq i c. scan_window (lower p) seq i c =
      c + of_bool (py_in (take 3 (drop i seq)) (lower p)) +
          of_bool (py_in (rev (take 3 (drop i seq))) (lower p))) \<and>
   (\<forall>i c. i < length (SEQUENCES ! 1) - 2 \<longrightarrow>
      \<not> py_in (take 3 (drop i (SEQUENCES ! 1))) (lower p) \<and>
      \<not> py_in (rev (take 3 (drop i (SEQUENCES ! 1)))) (lower p) \<and>
      scan_window (lower p) (SEQUENCES ! 1) i c = c)"
proof (intro conjI allI impI)
  assume "lower p = lower q"
  then show "find_sequences p = find_sequences q"
    by (simp add: find_sequences_def)
next
  show "lower (SEQUENCES ! 0) = SEQUENCES ! 0" "lower (SEQUENCES ! 2) = SEQUENCES ! 2"
    "lower (SEQUENCES ! 3) = SEQUENCES ! 3"
    by (rule lower_alphabets)+
next
  fix seq i c
  show "scan_window (lower p) seq i c =
      c + of_bool (py_in (take 3 (drop i seq)) (lower p)) +
          of_bool (py_in (rev (take 3 (drop i seq))) (lower p))"
    by (rule scan_window_hits)
next
  fix i :: nat and c :: int
  assume "i < length (SEQUENCES ! 1) - 2"
  then have i: "i < length (SEQUENCES ! 1)"
    by simp
  show fwd: "\<not> py_in (take 3 (drop i (SEQUENCES ! 1))) (lower p)"
    using i by (rule upper_chunk_never_in_lower) simp
  show bwd: "\<not> py_in (rev (take 3 (drop i (SEQUENCES ! 1)))) (lower p)"
    using i by (rule upper_chunk_never_in_lower) simp
  show "scan_window (lower p) (SEQUENCES ! 1) i c = c"
    using fwd bwd by (simp add: scan_window_hits)
qed

theorem sequences_case_insensitive_in_password_witness:
  "find_sequences ''ABC'' = find_sequences ''abc'' \<and>
   \<not> py_in (take 3 (drop 0 (SEQUENCES ! 1))) (lower ''ABC'') \<and>
   scan_window (lower ''ABC'') (SEQUENCES ! 1) 0 7 = 7"
proof -
  note inst = sequences_case_insensitive_in_password [of "''ABC''" "''abc''"]
  have "lower ''ABC'' = lower ''abc''"
    by (simp add: lower_ABC)
  with inst have "find_sequences ''ABC'' = find_sequences ''abc''"
    by blast
  moreover have "(0::nat) < length (SEQUENCES ! 1) - 2"
    unfolding length_upper_alphabet by simp
  with inst have "\<not> py_in (take 3 (drop 0 (SEQUENCES ! 1))) (lower ''ABC'') \<and>
      scan_window (lower ''ABC'') (SEQUENCES ! 1) 0 7 = 7"
    by blast
  ultimately show ?thesis
    by simp
qed

text \<open>
  C6, as the specification has it: a window contributes at most 1, also when both the chunk
  and its reverse occur. "abccba" holds "abc" and "cba", and the first window of the
  lower-case alphabet contributes 2.
\<close>

theorem window_counted_twice:
  "py_in (take 3 (drop 0 (SEQUENCES ! 0))) (lower ''abccba'') \<and>
   py_in (rev (take 3 (drop 0 (SEQUENCES ! 0)))) (lower ''abccba'') \<and>
   scan_window (lower ''abccba'') (SEQUENCES ! 0) 0 0 = 2 \<and>
   find_sequences ''abccba'' = 2"
proof -
  have "py_in (take 3 (drop 0 (SEQUENCES ! 0))) (lower ''abccba'')"
    "py_in (rev (take 3 (drop 0 (SEQUENCES ! 0)))) (lower ''abccba'')"
    by code_simp+
  then show ?thesis
    by (simp add: window_abccba detectors_case)
qed

text \<open>
  C6, amended: each window contributes 1 if its 3-character chunk occurs in the lower-cased
  password and 1 more if the reversed chunk occurs, so 0, 1 or 2; the count is the sum of
  the contributions of all windows of all alphabets.
\<close>

theorem window_counts_chunk_and_reverse:
  "scan_window lp seq i c =
     c + of_bool (py_in (take 3 (drop i seq)) lp) +
         of_bool (py_in (rev (take 3 (drop i seq))) lp) \<and>
   scan_window lp seq i c - c \<le> 2 \<and>
   (py_in (take 3 (drop i seq)) lp \<longleftrightarrow> (\<exists>pre suf. lp = pre @ take 3 (drop i seq) @ suf)) \<and>
   find_sequences p =
     (\<Sum>seq\<leftarrow>SEQUENCES. \<Sum>i\<leftarrow>[0 ..< length seq - 2]. scan_window (lower p) seq i 0)"
proof (intro conjI)
  show "scan_window lp seq i c =
     c + of_bool (py_in (take 3 (drop i seq)) lp) +
         of_bool (py_in (rev (take 3 (drop i seq))) lp)"
    by (rule scan_window_hits)
  then show "scan_window lp seq i c - c \<le> 2"
    by simp
  show "py_in (take 3 (drop i seq)) lp \<longleftrightarrow> (\<exists>pre suf. lp = pre @ take 3 (drop i seq) @ suf)"
    by (rule py_in_append)
  show "find_sequences p =
     (\<Sum>seq\<leftarrow>SEQUENCES. \<Sum>i\<leftarrow>[0 ..< length seq - 2]. scan_window (lower p) seq i 0)"
    by (rule find_sequences_sum)
qed

subsection \<open>Repetition detector\<close>

lemma re_search_suffix: "re_search m p \<longleftrightarrow> (\<exists>pre s. p = pre @ s \<and> m s)"
proof (induction p)
  case Nil
  show ?case by simp
next
  case (Cons c cs)
  show ?case
    by (auto simp: Cons.IH Cons_eq_append_conv)
qed

lemma run_here:
  "group_repeat_here 1 2 s \<longleftrightarrow> (\<exists>c suf. s = [c, c, c] @ suf \<and> c \<noteq> CHR 0x0A)"
proof (cases s)
  case Nil
  then show ?thesis by (simp add: group_repeat_here_def)
next
  case s1: (Cons a s1)
  show ?thesis
  proof (cases s1)
    case Nil
    with s1 show ?thesis by (simp add: group_repeat_here_def)
  next
    case s2: (Cons b s2)
    show ?thesis
    proof (cases s2)
      case Nil
      with s1 s2 show ?thesis by (simp add: group_repeat_here_def eval_nat_numeral)
    next
      case (Cons c s3)
      with s1 s2 show ?thesis
        by (auto simp: group_repeat_here_def dot_def eval_nat_numeral)
    qed
  qed
qed


lemma bigram_here:
  "group_repeat_here 2 1 s \<longleftrightarrow>
     (\<exists>a b suf. s = [a, b, a, b] @ suf \<and> a \<noteq> CHR 0x0A \<and> b \<noteq> CHR 0x0A)"
proof -
  consider "length s < 4" | a b c d suf where "s = a # b # c # d # suf"
    by (cases s rule: list.exhaust; cases "tl s"; cases "tl (tl s)"; cases "tl (tl (tl s))") auto
  then show ?thesis
  proof cases
    case 1
    then have "length (take (2 * 1) (drop 2 s)) < 2"
      by simp
    then have "take (2 * 1) (drop 2 s) \<noteq> concat (replicate 1 (take 2 s)) \<or> length (take 2 s) \<noteq> 2"
      by (metis One_nat_def append_Nil2 concat.simps(1) concat.simps(2) less_irrefl
          replicate_0 replicate_Suc)
    moreover have "\<not> (\<exists>a b suf. s = [a, b, a, b] @ suf)"
      using 1 by auto
    ultimately show ?thesis
      by (auto simp: group_repeat_here_def Let_def)
  next
    case 2
    then show ?thesis
      by (auto simp: group_repeat_here_def dot_def eval_nat_numeral)
  qed
qed

lemma trigram_here:
  "group_repeat_here 3 1 s \<longleftrightarrow>
     (\<exists>a b c suf. s = [a, b, c, a, b, c] @ suf \<and>
        a \<noteq> CHR 0x0A \<and> b \<noteq> CHR 0x0A \<and> c \<noteq> CHR 0x0A)"
proof -
  consider "length s < 6" | a b c d e f suf where "s = a # b # c # d # e # f # suf"
    by (cases s rule: list.exhaust; cases "tl s"; cases "tl (tl s)"; cases "tl (tl (tl s))";
        cases "tl (tl (tl (tl s)))"; cases "tl (tl (tl (tl (tl s))))") auto
  then show ?thesis
  proof cases
    case 1
    then have "length (take (3 * 1) (drop 3 s)) < 3"
      by simp
    then have "take (3 * 1) (drop 3 s) \<noteq> concat (replicate 1 (take 3 s)) \<or> length (take 3 s) \<noteq> 3"
      by (metis One_nat_def append_Nil2 concat.simps(1) concat.simps(2) less_irrefl
          replicate_0 replicate_Suc)
    moreover have "\<not> (\<exists>a b c suf. s = [a, b, c, a, b, c] @ suf)"
      using 1 by auto
    ultimately show ?thesis
      by (auto simp: group_repeat_here_def Let_def)
  next
    case 2
    then show ?thesis
      by (auto simp: group_repeat_here_def dot_def eval_nat_numeral)
  qed
qed

lemma repetition_examples:
  "repetition_penalty ''aAa'' = 0" "repetition_penalty ''aaa'' = 1"
  "repetition_penalty ''abAB'' = 0" "repetition_penalty ''abab'' = 1"
  "repetition_penalty ''abcABC'' = 0" "repetition_penalty ''abcabc'' = 1"
  "repetition_penalty (lower ''aAa'') = 1"
  by code_simp+

text \<open>
  C10: the repetition detector compares the characters as they are. The run check fires
  exactly when some character other than a newline occurs three times in a row, the bigram
  check exactly when two characters are followed at once by the same two, and the trigram
  check likewise for three, a newline never being part of the group. So "aAa", "abAB" and
  "abcABC" fire nothing while "aaa", "abab" and "abcabc" fire one check each, and
  lower-casing "aAa" first would fire the run check.
\<close>

theorem repetition_case_sensitive:
  "(re_search (group_repeat_here 1 2) p \<longleftrightarrow>
      (\<exists>pre c suf. p = pre @ [c, c, c] @ suf \<and> c \<noteq> CHR 0x0A)) \<and>
   (re_search (group_repeat_here 2 1) p \<longleftrightarrow>
      (\<exists>pre a b suf. p = pre @ [a, b, a, b] @ suf \<and> a \<noteq> CHR 0x0A \<and> b \<noteq> CHR 0x0A)) \<and>
   (re_search (group_repeat_here 3 1) p \<longleftrightarrow>
      (\<exists>pre a b c suf. p = pre @ [a, b, c, a, b, c] @ suf \<and>
         a \<noteq> CHR 0x0A \<and> b \<noteq> CHR 0x0A \<and> c \<noteq> CHR 0x0A)) \<and>
   repetition_penalty p =
     of_bool (re_search (group_repeat_here 1 2) p) +
     of_bool (re_search (group_repeat_here 2 1) p) +
     of_bool (re_search (group_repeat_here 3 1) p) \<and>
   repetition_penalty ''aAa'' = 0 \<and> repetition_penalty ''aaa'' = 1 \<and>
   repetition_penalty ''abAB'' = 0 \<and> repetition_penalty ''abab'' = 1 \<and>
   repetition_penalty ''abcABC'' = 0 \<and> repetition_penalty ''abcabc'' = 1 \<and>
   repetition_penalty (lower ''aAa'') = 1"
proof -
  have run: "re_search (group_repeat_here 1 2) p \<longleftrightarrow>
      (\<exists>pre c suf. p = pre @ [c, c, c] @ suf \<and> c \<noteq> CHR 0x0A)"
    unfolding re_search_suffix run_here by blast
  have bi: "re_search (group_repeat_here 2 1) p \<longleftrightarrow>
      (\<exists>pre a b suf. p = pre @ [a, b, a, b] @ suf \<and> a \<noteq> CHR 0x0A \<and> b \<noteq> CHR 0x0A)"
    unfolding re_search_suffix bigram_here by blast
  have tri: "re_search (group_repeat_here 3 1) p \<longleftrightarrow>
      (\<exists>pre a b c suf. p = pre @ [a, b, c, a, b, c] @ suf \<and>
         a \<noteq> CHR 0x0A \<and> b \<noteq> CHR 0x0A \<and> c \<noteq> CHR 0x0A)"
    unfolding re_search_suffix trigram_here by blast
  from run bi tri repetition_penalty_flags [of p] repetition_examples show ?thesis
    by (intro conjI)
qed

end
